theory Spec2Isabelle
  imports Complex_Main "HOL-Library.AList"
begin

section \<open>The Integrate transform of gmprocess/metrics/transform/integrate.py\<close>

subsection \<open>Samples\<close>

text \<open>
  The samples of a trace are floating-point numbers. A finite sample is modelled by the
  real number it denotes (rounding and overflow are not modelled); the three non-finite
  values are kept apart, with the arithmetic IEEE 754 gives them.
\<close>

datatype sample = Fin real | PosInf | NegInf | NaN

fun is_finite :: "sample \<Rightarrow> bool" where
  "is_finite (Fin x) = True"
| "is_finite PosInf = False"
| "is_finite NegInf = False"
| "is_finite NaN = False"

fun add_s :: "sample \<Rightarrow> sample \<Rightarrow> sample" where
  "add_s (Fin x) (Fin y) = Fin (x + y)"
| "add_s NaN y = NaN"
| "add_s x NaN = NaN"
| "add_s PosInf NegInf = NaN"
| "add_s NegInf PosInf = NaN"
| "add_s PosInf y = PosInf"
| "add_s x PosInf = PosInf"
| "add_s NegInf y = NegInf"
| "add_s x NegInf = NegInf"

fun scale_s :: "real \<Rightarrow> sample \<Rightarrow> sample" where
  "scale_s d (Fin x) = Fin (d * x)"
| "scale_s d NaN = NaN"
| "scale_s d PosInf = (if 0 < d then PosInf else if d < 0 then NegInf else NaN)"
| "scale_s d NegInf = (if 0 < d then NegInf else if d < 0 then PosInf else NaN)"

fun half_s :: "sample \<Rightarrow> sample" where
  "half_s (Fin x) = Fin (x / 2)"
| "half_s s = s"

subsection \<open>Traces, streams and the object store\<close>

text \<open>
  The header of a trace (\<^verbatim>\<open>trace.stats\<close>) is a dictionary from field names to values;
  the source writes it with \<^verbatim>\<open>stats['units'] = ...\<close>. It is kept as an association
  list, read with \<open>map_of\<close> and written with \<open>AList.update\<close>, which overwrites the value
  of a key that is present and adds a key that is not.
\<close>

datatype hval = HStr string | HNum real | HList "string list"

type_synonym stats = "(string \<times> hval) list"

text \<open>
  Traces and sample arrays are objects: \<^verbatim>\<open>get_integral\<close> calls a method on each
  trace of its input, assigns to the header of the trace that method returns, and
  hands the sample array of that trace to a new trace, so which object a reference
  denotes matters. The store holds the trace objects and the sample arrays allocated
  so far; a reference is an index, and a new object goes to the end. A trace refers to
  its sample array and holds its header; a stream holds references to its traces, in
  order.
\<close>

type_synonym addr = nat

record trace =
  data :: addr
  stats :: stats

record heap =
  traces :: "trace list"
  arrays :: "sample list list"

type_synonym stream = "addr list"

text \<open>
  A stream over a store: its references denote traces of the store, and the traces
  of the store refer to arrays of the store.
\<close>

definition valid :: "heap \<Rightarrow> stream \<Rightarrow> bool" where
  "valid h s = (list_all (\<lambda>a. a < length (traces h)) s
              \<and> list_all (\<lambda>t. data t < length (arrays h)) (traces h))"

text \<open>What a trace holds, by value: \<^verbatim>\<open>trace.data\<close> read out and \<^verbatim>\<open>trace.stats\<close>.\<close>

record snapshot =
  samples :: "sample list"
  header :: stats

definition snapshot_of :: "heap \<Rightarrow> addr \<Rightarrow> snapshot" where
  "snapshot_of h a =
     \<lparr>samples = arrays h ! data (traces h ! a), header = stats (traces h ! a)\<rparr>"

text \<open>The sampling interval \<^verbatim>\<open>stats.delta\<close>; a header built without one has 1.0.\<close>

definition delta_of :: "stats \<Rightarrow> real" where
  "delta_of st = (case map_of st ''delta'' of Some (HNum d) \<Rightarrow> d | _ \<Rightarrow> 1)"

subsection \<open>What the source calls and is not under src/\<close>

text \<open>
  Modelled from the spec: the rule of integration behind \<^verbatim>\<open>trace.integrate()\<close> (the
  method is obspy's, not under src/). Section 4.2 has a running (cumulative) integral
  over the trace's own time base, of the same length as the input, with value 0 at
  index 0 and the single-step rule thereafter; section 8 names the rule, cumulative
  trapezoidal: step \<open>i\<close> adds \<open>delta * (y\<^sub>i + y\<^sub>i\<^sub>-\<^sub>1) / 2\<close>.
\<close>

fun running :: "real \<Rightarrow> sample \<Rightarrow> sample \<Rightarrow> sample list \<Rightarrow> sample list" where
  "running dx acc prev [] = []"
| "running dx acc prev (y # ys) =
     (let acc' = add_s acc (half_s (scale_s dx (add_s y prev)))
      in acc' # running dx acc' y ys)"

fun cumtrapz :: "real \<Rightarrow> sample list \<Rightarrow> sample list" where
  "cumtrapz dx [] = []"
| "cumtrapz dx (y # ys) = Fin 0 # running dx (Fin 0) y ys"

text \<open>
  The record obspy keeps of an operation applied to a trace: one more entry at the end
  of the list \<^verbatim>\<open>stats.processing\<close>, which is created when the header has none. The
  text of the entry names the library, its version and the call; the version is left
  out here.
\<close>

definition processing_info :: string where
  "processing_info = ''ObsPy: integrate(method=cumtrapz)''"

definition add_processing_info :: "stats \<Rightarrow> stats" where
  "add_processing_info st =
     AList.update ''processing''
       (HList ((case map_of st ''processing'' of Some (HList ps) \<Rightarrow> ps | _ \<Rightarrow> [])
                 @ [processing_info])) st"

text \<open>
  Modelled from the spec: \<^verbatim>\<open>Trace.integrate\<close> (obspy's, not under src/). The spec gives
  the rule of integration and nothing else about the method, so the rest follows the
  library. On a trace with no sample the method does nothing and returns \<^verbatim>\<open>None\<close>.
  Otherwise it works in place: a new array holding the cumulative integral of the
  samples over the sampling interval becomes \<^verbatim>\<open>trace.data\<close> (the array the trace had
  is not written into), the operation is recorded in \<^verbatim>\<open>stats.processing\<close>, and the
  value returned is the trace itself.
\<close>

definition integrated :: "snapshot \<Rightarrow> snapshot" where
  "integrated v = \<lparr>samples = cumtrapz (delta_of (header v)) (samples v),
                   header = add_processing_info (header v)\<rparr>"

definition Trace_integrate :: "heap \<Rightarrow> addr \<Rightarrow> heap \<times> addr option" where
  "Trace_integrate h a =
     (let v = snapshot_of h a in
      if samples v = [] then (h, None)
      else (h\<lparr>arrays := arrays h @ [samples (integrated v)],
               traces := (traces h)[a := \<lparr>data = length (arrays h),
                                          stats = header (integrated v)\<rparr>]\<rparr>,
            Some a))"

text \<open>
  Modelled from the spec: the constructor \<^verbatim>\<open>StationTrace(data=..., header=...)\<close>
  (gmprocess.stationtrace, not under src/). Section 3: a trace is its samples and its
  header. The new trace is a new object that refers to the sample array it is given,
  without copying it, and holds a copy of the header it is given. The checks the
  constructor makes on a header are not modelled: a header here stands for one that
  passes them.
\<close>

definition StationTrace :: "heap \<Rightarrow> addr \<Rightarrow> stats \<Rightarrow> heap \<times> addr" where
  "StationTrace h d hdr =
     (h\<lparr>traces := traces h @ [\<lparr>data = d, stats = hdr\<rparr>]\<rparr>, length (traces h))"

subsection \<open>Integrate.get\_integral\<close>

text \<open>
  The error kinds of section 7 of the spec, none of which the source raises, and the
  one error the lines under study can end in: line 34 reads \<^verbatim>\<open>.stats\<close> of what
  \<^verbatim>\<open>trace.integrate()\<close> returned, an AttributeError when that is \<^verbatim>\<open>None\<close>.
\<close>

datatype error =
  MissingParameter | InvalidParameter | InvalidData | EmptyInput | AttributeError

text \<open>\<^verbatim>\<open>integrated_trace.stats['units'] = 'veloc'\<close>, on the object referred to.\<close>

definition set_units :: "heap \<Rightarrow> addr \<Rightarrow> heap" where
  "set_units h b =
     h\<lparr>traces := (traces h)[b := (traces h ! b)
          \<lparr>stats := AList.update ''units'' (HStr ''veloc'') (stats (traces h ! b))\<rparr>]\<rparr>"

text \<open>One pass of the loop body, lines 33 to 37: the new store and the new trace.\<close>

definition loop_body :: "heap \<Rightarrow> addr \<Rightarrow> error + heap \<times> addr" where
  "loop_body h a =
     (case Trace_integrate h a of
        (h1, None) \<Rightarrow> Inl AttributeError
      | (h1, Some integrated_trace) \<Rightarrow>
          (let h2 = set_units h1 integrated_trace
           in Inr (StationTrace h2 (data (traces h2 ! integrated_trace))
                                   (stats (traces h2 ! integrated_trace)))))"

text \<open>
  The loop \<^verbatim>\<open>for trace in self.transform_data\<close>: \<open>strm\<close> is the result stream built so
  far, to which each new trace is appended. An error ends the loop and no stream is
  returned.
\<close>

fun get_integral_loop :: "heap \<Rightarrow> stream \<Rightarrow> stream \<Rightarrow> error + heap \<times> stream" where
  "get_integral_loop h strm [] = Inr (h, strm)"
| "get_integral_loop h strm (a # as) =
     (case loop_body h a of
        Inl e \<Rightarrow> Inl e
      | Inr (h', strace) \<Rightarrow> get_integral_loop h' (strm @ [strace]) as)"

definition get_integral :: "heap \<Rightarrow> stream \<Rightarrow> error + heap \<times> stream" where
  "get_integral h transform_data = get_integral_loop h [] transform_data"

subsection \<open>Integrate.\_\_init\_\_\<close>

record Transform =
  transform_data :: stream
  damping :: "real option"
  period :: "real option"
  times :: "real list option"

record Integrate = Transform +
  result :: stream

text \<open>
  Modelled from the spec: the constructor of the base class (gmprocess's
  \<^verbatim>\<open>Transform.__init__\<close>, not under src/), which stores its four arguments
  (sections 3 and 9).
\<close>

definition Transform_init ::
  "stream \<Rightarrow> real option \<Rightarrow> real option \<Rightarrow> real list option \<Rightarrow> Transform" where
  "Transform_init td d p t = \<lparr>transform_data = td, damping = d, period = p, times = t\<rparr>"

text \<open>
  Line 21 passes \<^verbatim>\<open>damping=None, period=None, times=None\<close> to the base constructor,
  whatever the caller gave; line 22 stores the integral of \<^verbatim>\<open>self.transform_data\<close>.
\<close>

definition Integrate_init ::
  "heap \<Rightarrow> stream \<Rightarrow> real option \<Rightarrow> real option \<Rightarrow> real list option
     \<Rightarrow> error + (heap \<times> Integrate)" where
  "Integrate_init h td d p t =
     (let self = Transform_init td None None None
      in case get_integral h (transform_data self) of
           Inl e \<Rightarrow> Inl e
         | Inr (h', r) \<Rightarrow> Inr (h', Transform.extend self \<lparr>result = r\<rparr>))"

subsection \<open>Terms the statements are written in\<close>

text \<open>
  What lines 33 and 34 leave in a trace object, by value: the samples integrated, the
  operation recorded and \<^verbatim>\<open>'units'\<close> set to \<^verbatim>\<open>'veloc'\<close>. Line 35 builds the output trace
  from the sample array and the header of that object.
\<close>

definition processed :: "snapshot \<Rightarrow> snapshot" where
  "processed v =
     (integrated v)\<lparr>header := AList.update ''units'' (HStr ''veloc'') (header (integrated v))\<rparr>"

text \<open>
  The store after one pass of the loop body over a trace that has samples: one array
  and one trace are added; the trace visited now refers to the new array and holds the
  processed header, and the new trace refers to the same array and holds the same
  header.
\<close>

definition pass :: "heap \<Rightarrow> addr \<Rightarrow> heap" where
  "pass h a =
     \<lparr>traces = (traces h)[a := \<lparr>data = length (arrays h),
                                 stats = header (processed (snapshot_of h a))\<rparr>]
                @ [\<lparr>data = length (arrays h),
                    stats = header (processed (snapshot_of h a))\<rparr>],
      arrays = arrays h @ [samples (processed (snapshot_of h a))]\<rparr>"

text \<open>
  A store to run the model on: two traces, of one second and of half a second of
  sampling interval, both tagged as acceleration, each with a sample array of its own.
\<close>

definition hn1 :: snapshot where
  "hn1 = \<lparr>samples = [Fin 0, Fin 2],
          header = [(''station'', HStr ''CMB''), (''channel'', HStr ''HN1''),
                    (''delta'', HNum 1), (''units'', HStr ''acc'')]\<rparr>"

definition hn2 :: snapshot where
  "hn2 = \<lparr>samples = [Fin 2, Fin 2, Fin 4],
          header = [(''station'', HStr ''CMB''), (''channel'', HStr ''HN2''),
                    (''delta'', HNum (1/2)), (''units'', HStr ''acc'')]\<rparr>"

definition hn1_veloc :: snapshot where
  "hn1_veloc = \<lparr>samples = [Fin 0, Fin 1],
          header = [(''station'', HStr ''CMB''), (''channel'', HStr ''HN1''),
                    (''delta'', HNum 1), (''units'', HStr ''veloc''),
                    (''processing'', HList [processing_info])]\<rparr>"

definition hn2_veloc :: snapshot where
  "hn2_veloc = \<lparr>samples = [Fin 0, Fin 1, Fin (5/2)],
          header = [(''station'', HStr ''CMB''), (''channel'', HStr ''HN2''),
                    (''delta'', HNum (1/2)), (''units'', HStr ''veloc''),
                    (''processing'', HList [processing_info])]\<rparr>"

definition station :: heap where
  "station = \<lparr>traces = [\<lparr>data = 0, stats = header hn1\<rparr>, \<lparr>data = 1, stats = header hn2\<rparr>],
              arrays = [samples hn1, samples hn2]\<rparr>"

text \<open>The store after \<^verbatim>\<open>get_integral\<close> has visited the second trace, then the first.\<close>

definition station_veloc :: heap where
  "station_veloc =
     \<lparr>traces = [\<lparr>data = 3, stats = header hn1_veloc\<rparr>, \<lparr>data = 2, stats = header hn2_veloc\<rparr>,
                \<lparr>data = 2, stats = header hn2_veloc\<rparr>, \<lparr>data = 3, stats = header hn1_veloc\<rparr>],
      arrays = [samples hn1, samples hn2, samples hn2_veloc, samples hn1_veloc]\<rparr>"

text \<open>The store of the first trace alone, before and after \<^verbatim>\<open>get_integral\<close>.\<close>

definition single :: heap where
  "single = \<lparr>traces = [\<lparr>data = 0, stats = header hn1\<rparr>], arrays = [samples hn1]\<rparr>"

definition single_veloc :: heap where
  "single_veloc =
     \<lparr>traces = [\<lparr>data = 1, stats = header hn1_veloc\<rparr>, \<lparr>data = 1, stats = header hn1_veloc\<rparr>],
      arrays = [samples hn1, samples hn1_veloc]\<rparr>"

section \<open>Properties\<close>

subsection \<open>The integration rule\<close>

lemma length_running: "length (running dx acc prev ys) = length ys"
  by (induction ys arbitrary: acc prev) (simp_all add: Let_def)

lemma length_cumtrapz: "length (cumtrapz dx ys) = length ys"
  by (cases ys) (simp_all add: length_running)

lemma cumtrapz_0: "ys \<noteq> [] \<Longrightarrow> cumtrapz dx ys ! 0 = Fin 0"
  by (cases ys) simp_all

text \<open>A value that is not finite stays so through each operation of a step.\<close>

lemma add_s_nonfinite: "\<not> is_finite x \<or> \<not> is_finite y \<Longrightarrow> \<not> is_finite (add_s x y)"
  by (cases x; cases y) simp_all

lemma scale_s_nonfinite: "\<not> is_finite x \<Longrightarrow> \<not> is_finite (scale_s d x)"
  by (cases x) simp_all

lemma half_s_nonfinite: "\<not> is_finite x \<Longrightarrow> \<not> is_finite (half_s x)"
  by (cases x) simp_all

lemma running_nonfinite:
  assumes "ys \<noteq> []"
    and "\<not> is_finite acc \<or> \<not> is_finite prev \<or> \<not> list_all is_finite ys"
  shows "\<not> list_all is_finite (running dx acc prev ys)"
  using assms
proof (induction ys arbitrary: acc prev)
  case Nil
  then show ?case by simp
next
  case (Cons y ys)
  let ?acc = "add_s acc (half_s (scale_s dx (add_s y prev)))"
  show ?case
  proof (cases "is_finite acc \<and> is_finite prev \<and> is_finite y")
    case False
    then have "\<not> is_finite ?acc"
      by (auto intro!: add_s_nonfinite half_s_nonfinite scale_s_nonfinite)
    then show ?thesis by (simp add: Let_def)
  next
    case True
    with Cons.prems(2) have rest: "\<not> list_all is_finite ys" by simp
    then have "ys \<noteq> []" by auto
    from Cons.IH [OF this, of ?acc y] rest show ?thesis by (simp add: Let_def)
  qed
qed

lemma cumtrapz_nonfinite:
  assumes "2 \<le> length ys" and "\<not> list_all is_finite ys"
  shows "\<not> list_all is_finite (cumtrapz dx ys)"
proof (cases ys)
  case Nil
  with assms show ?thesis by simp
next
  case (Cons y zs)
  with assms(1) have "zs \<noteq> []" by auto
  moreover from assms(2) Cons have "\<not> is_finite y \<or> \<not> list_all is_finite zs" by simp
  ultimately have "\<not> list_all is_finite (running dx (Fin 0) y zs)"
    by (intro running_nonfinite) auto
  with Cons show ?thesis by simp
qed

subsection \<open>One pass over a trace object\<close>

lemma samples_processed:
  "samples (processed v) = cumtrapz (delta_of (header v)) (samples v)"
  by (simp add: processed_def integrated_def)

lemma header_processed:
  "header (processed v)
     = AList.update ''units'' (HStr ''veloc'') (add_processing_info (header v))"
  by (simp add: processed_def integrated_def)

lemma units_processed: "map_of (header (processed v)) ''units'' = Some (HStr ''veloc'')"
  by (simp add: header_processed update_conv')

lemma other_processed:
  "k \<noteq> ''units'' \<Longrightarrow> k \<noteq> ''processing'' \<Longrightarrow>
     map_of (header (processed v)) k = map_of (header v) k"
  by (simp add: header_processed add_processing_info_def update_conv')

lemma other_processed_pow:
  "k \<noteq> ''units'' \<Longrightarrow> k \<noteq> ''processing'' \<Longrightarrow>
     map_of (header ((processed ^^ n) v)) k = map_of (header v) k"
  by (induction n) (simp_all add: other_processed)

lemma length_processed_pow: "length (samples ((processed ^^ n) v)) = length (samples v)"
  by (induction n) (simp_all add: samples_processed length_cumtrapz)

lemma nonfinite_processed_pow:
  assumes "2 \<le> length (samples v)" and "\<not> list_all is_finite (samples v)"
  shows "\<not> list_all is_finite (samples ((processed ^^ n) v))"
proof (induction n)
  case 0
  from assms(2) show ?case by simp
next
  case (Suc n)
  have "2 \<le> length (samples ((processed ^^ n) v))"
    using assms(1) by (simp add: length_processed_pow)
  from cumtrapz_nonfinite [OF this Suc] show ?case
    by (simp add: samples_processed)
qed

lemma processed_hn1: "processed hn1 = hn1_veloc"
  by (simp add: processed_def integrated_def add_processing_info_def delta_of_def
      hn1_def hn1_veloc_def)

lemma processed_hn2: "processed hn2 = hn2_veloc"
  by (simp add: processed_def integrated_def add_processing_info_def delta_of_def
      hn2_def hn2_veloc_def)

text \<open>
  The loop body on a trace of the store: with no sample it ends in the error of line
  34, otherwise it makes one pass.
\<close>

lemma loop_body_no_sample:
  "samples (snapshot_of h a) = [] \<Longrightarrow> loop_body h a = Inl AttributeError"
  by (simp add: loop_body_def Trace_integrate_def Let_def)

lemma loop_body_sample:
  assumes "samples (snapshot_of h a) \<noteq> []" and "a < length (traces h)"
  shows "loop_body h a = Inr (pass h a, length (traces h))"
  using assms
  by (simp add: loop_body_def Trace_integrate_def set_units_def StationTrace_def
      processed_def integrated_def pass_def Let_def)

lemma loop_body_Inr:
  assumes "loop_body h a = Inr (h1, c)"
  shows "samples (snapshot_of h a) \<noteq> []"
  using assms by (auto simp: loop_body_no_sample)

lemma valid_Cons:
  "valid h (a # as) = (a < length (traces h) \<and> valid h as)"
  by (auto simp: valid_def)

lemma valid_nth: "valid h s \<Longrightarrow> i < length s \<Longrightarrow> s ! i < length (traces h)"
  by (simp add: valid_def list_all_length)

lemma valid_ref: "valid h s \<Longrightarrow> a < length (traces h) \<Longrightarrow> data (traces h ! a) < length (arrays h)"
  by (simp add: valid_def list_all_length)

lemma valid_count0: "valid h s \<Longrightarrow> count_list s (length (traces h)) = 0"
  by (induction s) (auto simp: valid_Cons)

lemma valid_notin: "valid h s \<Longrightarrow> length (traces h) \<notin> set s"
  by (induction s) (auto simp: valid_Cons)

lemma pass_lengths:
  "length (traces (pass h a)) = Suc (length (traces h))"
  "length (arrays (pass h a)) = Suc (length (arrays h))"
  by (simp_all add: pass_def)

lemma pass_arrays: "r < length (arrays h) \<Longrightarrow> arrays (pass h a) ! r = arrays h ! r"
  by (simp add: pass_def nth_append)

lemma pass_other:
  "x < length (traces h) \<Longrightarrow> x \<noteq> a \<Longrightarrow> traces (pass h a) ! x = traces h ! x"
  by (simp add: pass_def nth_append)

lemma pass_visited:
  "a < length (traces h) \<Longrightarrow> snapshot_of (pass h a) a = processed (snapshot_of h a)"
  by (simp add: pass_def snapshot_of_def nth_append)

lemma pass_new:
  "snapshot_of (pass h a) (length (traces h)) = processed (snapshot_of h a)"
  by (simp add: pass_def snapshot_of_def nth_append)

lemma pass_shared:
  "a < length (traces h) \<Longrightarrow>
     data (traces (pass h a) ! length (traces h)) = data (traces (pass h a) ! a)"
  by (simp add: pass_def nth_append)

lemma valid_pass:
  assumes "valid h s"
  shows "valid (pass h a) s"
proof -
  have "list_all (\<lambda>b. b < length (traces (pass h a))) s"
    using assms by (auto simp: valid_def pass_lengths list_all_iff)
  moreover have "list_all (\<lambda>t. data t < length (arrays (pass h a))) (traces (pass h a))"
  proof -
    have "data t < Suc (length (arrays h))" if "t \<in> set (traces (pass h a))" for t
    proof -
      from that have "t \<in> set (traces h) \<or> data t = length (arrays h)"
        by (auto simp: pass_def dest: set_update_subset_insert [THEN subsetD])
      then show ?thesis using assms by (auto simp: valid_def list_all_iff less_Suc_eq)
    qed
    then show ?thesis by (simp add: list_all_iff pass_lengths)
  qed
  ultimately show ?thesis by (simp add: valid_def)
qed

lemma pass_snapshot_other:
  assumes "valid h s" and "x < length (traces h)" and "x \<noteq> a"
  shows "snapshot_of (pass h a) x = snapshot_of h x"
  using assms valid_ref [OF assms(1,2)]
  by (simp add: snapshot_of_def pass_other pass_arrays)

subsection \<open>The loop\<close>

lemma count_take_distinct:
  assumes "distinct s" and "i < length s"
  shows "count_list (take i s) (s ! i) = 0"
proof -
  have "s ! i \<notin> set (take i s)"
    using assms by (auto simp: in_set_conv_nth nth_eq_iff_index_eq)
  then show ?thesis by (rule count_notin)
qed

lemma count_distinct: "distinct s \<Longrightarrow> a \<in> set s \<Longrightarrow> count_list s a = 1"
  by (induction s) (auto simp: count_notin)

lemma notin_drop_distinct:
  assumes "distinct s" and "i < length s"
  shows "s ! i \<notin> set (drop (Suc i) s)"
proof
  assume "s ! i \<in> set (drop (Suc i) s)"
  then obtain j where "j < length s - Suc i" and "drop (Suc i) s ! j = s ! i"
    by (auto simp: in_set_conv_nth)
  then have "s ! (Suc i + j) = s ! i" and "Suc i + j < length s" by simp_all
  with assms show False by (simp add: nth_eq_iff_index_eq)
qed

text \<open>One turn of the loop that went on to return a result.\<close>

lemma loop_step:
  assumes "valid h (a # as)" and "get_integral_loop h strm (a # as) = Inr (h', out)"
  shows "samples (snapshot_of h a) \<noteq> []"
    and "get_integral_loop (pass h a) (strm @ [length (traces h)]) as = Inr (h', out)"
    and "valid (pass h a) as"
proof -
  from assms(1) have a: "a < length (traces h)" and vas: "valid h as"
    by (simp_all add: valid_Cons)
  show ne: "samples (snapshot_of h a) \<noteq> []"
  proof
    assume "samples (snapshot_of h a) = []"
    then have "loop_body h a = Inl AttributeError" by (rule loop_body_no_sample)
    with assms(2) show False by simp
  qed
  from assms(2) show "get_integral_loop (pass h a) (strm @ [length (traces h)]) as = Inr (h', out)"
    by (simp add: loop_body_sample [OF ne a])
  from vas show "valid (pass h a) as" by (rule valid_pass)
qed

text \<open>
  The new traces are the next free references in order, and nothing but the traces
  of the stream is touched: no array of the old store is written into, and a trace
  the stream does not hold is as it was.
\<close>

lemma loop_frame:
  assumes "valid h s" and "get_integral_loop h strm s = Inr (h', out)"
  shows "out = strm @ [length (traces h) ..< length (traces h) + length s]
       \<and> length (traces h') = length (traces h) + length s
       \<and> (\<forall>r<length (arrays h). arrays h' ! r = arrays h ! r)
       \<and> (\<forall>x<length (traces h). x \<notin> set s \<longrightarrow> traces h' ! x = traces h ! x)"
  using assms
proof (induction s arbitrary: h strm)
  case Nil
  then show ?case by simp
next
  case (Cons a as)
  let ?n = "length (traces h)"
  note step = loop_step [OF Cons.prems]
  note IH = Cons.IH [OF step(3) step(2)]
  have up: "[?n ..< ?n + length (a # as)] = ?n # [Suc ?n ..< Suc ?n + length as]"
  proof -
    have "?n < ?n + length (a # as)" by simp
    then have "[?n ..< ?n + length (a # as)] = ?n # [Suc ?n ..< ?n + length (a # as)]"
      by (rule upt_conv_Cons)
    then show ?thesis by simp
  qed
  have out: "out = strm @ [?n ..< ?n + length (a # as)]"
    using IH up by (simp add: pass_lengths)
  have len: "length (traces h') = ?n + length (a # as)"
    using IH by (simp add: pass_lengths)
  have arr: "\<forall>r<length (arrays h). arrays h' ! r = arrays h ! r"
    using IH by (simp add: pass_lengths pass_arrays)
  have oth: "\<forall>x<?n. x \<notin> set (a # as) \<longrightarrow> traces h' ! x = traces h ! x"
    using IH by (simp add: pass_lengths pass_other)
  from out len arr oth show ?case by blast
qed

text \<open>
  An object of the old store has been overwritten once for each time the stream refers
  to it, and the \<open>i\<close>-th new trace holds what the \<open>i\<close>-th trace of the stream held right
  after its own pass.
\<close>

lemma loop_snapshots:
  assumes "valid h s" and "get_integral_loop h strm s = Inr (h', out)"
  shows "(\<forall>a<length (traces h).
            snapshot_of h' a = (processed ^^ count_list s a) (snapshot_of h a))
       \<and> (\<forall>i<length s. snapshot_of h' (length (traces h) + i)
            = (processed ^^ Suc (count_list (take i s) (s ! i))) (snapshot_of h (s ! i)))"
  using assms
proof (induction s arbitrary: h strm)
  case Nil
  then show ?case by simp
next
  case (Cons a as)
  let ?n = "length (traces h)"
  let ?h3 = "pass h a"
  from Cons.prems(1) have a: "a < ?n" and vas: "valid h as"
    by (simp_all add: valid_Cons)
  note step = loop_step [OF Cons.prems]
  note IH = Cons.IH [OF step(3) step(2)]
  have shift: "(processed ^^ k) (snapshot_of ?h3 x)
      = (processed ^^ (if a = x then Suc k else k)) (snapshot_of h x)" if "x < ?n" for x k
  proof (cases "x = a")
    case True
    then show ?thesis using a by (simp add: pass_visited funpow_swap1)
  next
    case False
    then show ?thesis using pass_snapshot_other [OF Cons.prems(1) that] by simp
  qed
  have old: "\<forall>x<?n. snapshot_of h' x = (processed ^^ count_list (a # as) x) (snapshot_of h x)"
  proof (intro allI impI)
    fix x assume x: "x < ?n"
    then have "x < length (traces ?h3)" by (simp add: pass_lengths)
    with IH have "snapshot_of h' x = (processed ^^ count_list as x) (snapshot_of ?h3 x)"
      by blast
    then show "snapshot_of h' x = (processed ^^ count_list (a # as) x) (snapshot_of h x)"
      using shift [OF x] by simp
  qed
  have new: "\<forall>i<length (a # as). snapshot_of h' (?n + i)
      = (processed ^^ Suc (count_list (take i (a # as)) ((a # as) ! i)))
          (snapshot_of h ((a # as) ! i))"
  proof (intro allI impI)
    fix i assume i: "i < length (a # as)"
    show "snapshot_of h' (?n + i)
      = (processed ^^ Suc (count_list (take i (a # as)) ((a # as) ! i)))
          (snapshot_of h ((a # as) ! i))"
    proof (cases i)
      case 0
      have "?n < length (traces ?h3)" by (simp add: pass_lengths)
      with IH have "snapshot_of h' ?n = (processed ^^ count_list as ?n) (snapshot_of ?h3 ?n)"
        by blast
      then show ?thesis using 0 valid_count0 [OF vas] by (simp add: pass_new)
    next
      case (Suc j)
      with i have j: "j < length as" by simp
      then have x: "as ! j < ?n" using vas by (simp add: valid_nth)
      from IH j have "snapshot_of h' (length (traces ?h3) + j)
          = (processed ^^ Suc (count_list (take j as) (as ! j))) (snapshot_of ?h3 (as ! j))"
        by blast
      then show ?thesis using Suc shift [OF x] by (simp add: pass_lengths)
    qed
  qed
  from old new show ?case by blast
qed

text \<open>
  The new trace and the trace it was made from refer to one and the same array, as
  long as the stream does not visit that trace again.
\<close>

lemma loop_shared:
  assumes "valid h s" and "get_integral_loop h strm s = Inr (h', out)"
  shows "\<forall>i<length s. s ! i \<notin> set (drop (Suc i) s) \<longrightarrow>
           data (traces h' ! (length (traces h) + i)) = data (traces h' ! (s ! i))"
  using assms
proof (induction s arbitrary: h strm)
  case Nil
  then show ?case by simp
next
  case (Cons a as)
  let ?n = "length (traces h)"
  let ?h3 = "pass h a"
  from Cons.prems(1) have a: "a < ?n" and vas: "valid h as"
    by (simp_all add: valid_Cons)
  note step = loop_step [OF Cons.prems]
  note IH = Cons.IH [OF step(3) step(2)]
  note fr = loop_frame [OF step(3) step(2)]
  show ?case
  proof (intro allI impI)
    fix i assume i: "i < length (a # as)"
      and last: "(a # as) ! i \<notin> set (drop (Suc i) (a # as))"
    show "data (traces h' ! (?n + i)) = data (traces h' ! ((a # as) ! i))"
    proof (cases i)
      case 0
      with last have na: "a \<notin> set as" by simp
      have nn: "?n \<notin> set as" using vas by (rule valid_notin)
      have "traces h' ! ?n = traces ?h3 ! ?n"
        using fr nn by (simp add: pass_lengths)
      moreover have "traces h' ! a = traces ?h3 ! a"
        using fr na a by (simp add: pass_lengths)
      ultimately show ?thesis using 0 pass_shared [OF a] by simp
    next
      case (Suc j)
      with i last have j: "j < length as" and "as ! j \<notin> set (drop (Suc j) as)"
        by simp_all
      with IH have "data (traces h' ! (length (traces ?h3) + j)) = data (traces h' ! (as ! j))"
        by blast
      then show ?thesis using Suc by (simp add: pass_lengths)
    qed
  qed
qed

text \<open>
  The loop ends in the error of line 34 when a trace of the stream has no sample, and
  in no other error.
\<close>

lemma pass_keeps_emptiness:
  assumes "valid h s" and "a < length (traces h)" and "b < length (traces h)"
    and "samples (snapshot_of h a) \<noteq> []"
  shows "(samples (snapshot_of (pass h a) b) = []) = (samples (snapshot_of h b) = [])"
proof (cases "b = a")
  case True
  have "length (samples (processed (snapshot_of h a))) = length (samples (snapshot_of h a))"
    by (simp add: samples_processed length_cumtrapz)
  then have "(samples (processed (snapshot_of h a)) = []) = (samples (snapshot_of h a) = [])"
    by (simp only: length_0_conv [symmetric])
  then show ?thesis using True assms(2) by (simp add: pass_visited)
next
  case False
  then show ?thesis using pass_snapshot_other [OF assms(1,3)] by simp
qed

lemma loop_fails:
  assumes "valid h s" and "\<not> list_all (\<lambda>a. samples (snapshot_of h a) \<noteq> []) s"
  shows "get_integral_loop h strm s = Inl AttributeError"
  using assms
proof (induction s arbitrary: h strm)
  case Nil
  then show ?case by simp
next
  case (Cons a as)
  from Cons.prems(1) have a: "a < length (traces h)" and vas: "valid h as"
    by (simp_all add: valid_Cons)
  show ?case
  proof (cases "samples (snapshot_of h a) = []")
    case True
    then show ?thesis by (simp add: loop_body_no_sample)
  next
    case ne: False
    with Cons.prems(2) have "\<not> list_all (\<lambda>b. samples (snapshot_of h b) \<noteq> []) as" by simp
    then have "\<not> list_all (\<lambda>b. samples (snapshot_of (pass h a) b) \<noteq> []) as"
      using pass_keeps_emptiness [OF Cons.prems(1) a _ ne] vas
      by (auto simp: list_all_iff valid_def)
    from Cons.IH [OF valid_pass [OF vas] this]
    show ?thesis by (simp add: loop_body_sample [OF ne a])
  qed
qed

text \<open>The same facts for \<open>get_integral\<close>, which starts the loop on an empty stream.\<close>

lemma get_integral_char:
  assumes "valid h s" and "get_integral h s = Inr (h', out)"
  shows "out = [length (traces h) ..< length (traces h) + length s]"
    and "length (traces h') = length (traces h) + length s"
    and "r < length (arrays h) \<Longrightarrow> arrays h' ! r = arrays h ! r"
    and "x < length (traces h) \<Longrightarrow> x \<notin> set s \<Longrightarrow> traces h' ! x = traces h ! x"
    and "a < length (traces h) \<Longrightarrow>
           snapshot_of h' a = (processed ^^ count_list s a) (snapshot_of h a)"
    and "i < length s \<Longrightarrow> snapshot_of h' (out ! i)
           = (processed ^^ Suc (count_list (take i s) (s ! i))) (snapshot_of h (s ! i))"
    and "i < length s \<Longrightarrow> s ! i \<notin> set (drop (Suc i) s) \<Longrightarrow>
           data (traces h' ! (out ! i)) = data (traces h' ! (s ! i))"
    and "list_all (\<lambda>a. samples (snapshot_of h a) \<noteq> []) s"
proof -
  from assms(2) have run: "get_integral_loop h [] s = Inr (h', out)"
    by (simp add: get_integral_def)
  note f = loop_frame [OF assms(1) run]
  note c = loop_snapshots [OF assms(1) run]
  note sh = loop_shared [OF assms(1) run]
  from f show o: "out = [length (traces h) ..< length (traces h) + length s]" by simp
  from f show "length (traces h') = length (traces h) + length s" by simp
  from f show "r < length (arrays h) \<Longrightarrow> arrays h' ! r = arrays h ! r" by simp
  from f show "x < length (traces h) \<Longrightarrow> x \<notin> set s \<Longrightarrow> traces h' ! x = traces h ! x"
    by simp
  from c show "a < length (traces h) \<Longrightarrow>
      snapshot_of h' a = (processed ^^ count_list s a) (snapshot_of h a)" by simp
  from c show "i < length s \<Longrightarrow> snapshot_of h' (out ! i)
      = (processed ^^ Suc (count_list (take i s) (s ! i))) (snapshot_of h (s ! i))"
    by (simp add: o)
  from sh show "i < length s \<Longrightarrow> s ! i \<notin> set (drop (Suc i) s) \<Longrightarrow>
      data (traces h' ! (out ! i)) = data (traces h' ! (s ! i))"
    by (simp add: o)
  show "list_all (\<lambda>a. samples (snapshot_of h a) \<noteq> []) s"
  proof (rule ccontr)
    assume "\<not> list_all (\<lambda>a. samples (snapshot_of h a) \<noteq> []) s"
    from loop_fails [OF assms(1) this, of "[]"] run show False by simp
  qed
qed

text \<open>What \<open>Integrate_init\<close> returns is what \<open>get_integral\<close> returns.\<close>

lemma Integrate_init_Inr:
  "Integrate_init h s d p t = Inr (h', self) \<Longrightarrow> get_integral h s = Inr (h', result self)"
  by (auto simp: Integrate_init_def Transform_init_def Transform.extend_def Let_def
      split: sum.splits)

text \<open>The example store, its traces visited in the order second, first.\<close>

lemma valid_station: "valid station [1, 0]"
  by (simp add: valid_def station_def)

lemma snapshot_station:
  "snapshot_of station 0 = hn1" "snapshot_of station 1 = hn2"
  by (simp_all add: snapshot_of_def station_def)

lemma get_integral_station: "get_integral station [1, 0] = Inr (station_veloc, [2, 3])"
  by (simp add: get_integral_def loop_body_sample snapshot_station processed_hn2
      processed_hn1 pass_def hn1_def hn2_def)
    (simp add: station_def station_veloc_def loop_body_def Trace_integrate_def
      set_units_def StationTrace_def snapshot_of_def integrated_def
      add_processing_info_def delta_of_def hn1_def hn2_def hn1_veloc_def hn2_veloc_def
      Let_def)

lemma loop_error: "get_integral_loop h strm s = Inl e \<Longrightarrow> e = AttributeError"
proof (induction s arbitrary: h strm)
  case Nil
  then show ?case by simp
next
  case (Cons a as)
  show ?case
  proof (cases "loop_body h a")
    case (Inl e')
    then have "e' = AttributeError"
      by (auto simp: loop_body_def Let_def split: prod.splits option.splits)
    with Inl Cons.prems show ?thesis by simp
  next
    case (Inr r)
    with Cons.prems Cons.IH show ?thesis by (cases r) simp
  qed
qed

lemma Integrate_init_Inl: "Integrate_init h s d p t = Inl e \<Longrightarrow> e = AttributeError"
  by (auto simp: Integrate_init_def Transform_init_def get_integral_def Let_def
      split: sum.splits dest: loop_error)

lemma snapshot_simps:
  "header (snapshot_of h a) = stats (traces h ! a)"
  "samples (snapshot_of h a) = arrays h ! data (traces h ! a)"
  by (simp_all add: snapshot_of_def)

lemma snapshot_station_veloc:
  "snapshot_of station_veloc 0 = hn1_veloc" "snapshot_of station_veloc 1 = hn2_veloc"
  "snapshot_of station_veloc 2 = hn2_veloc" "snapshot_of station_veloc 3 = hn1_veloc"
  by (simp_all add: snapshot_of_def station_veloc_def)

lemma valid_single: "valid single [0]"
  by (simp add: valid_def single_def)

lemma get_integral_single: "get_integral single [0] = Inr (single_veloc, [1])"
  by (simp add: single_def single_veloc_def get_integral_def loop_body_def
      Trace_integrate_def set_units_def StationTrace_def snapshot_of_def integrated_def
      add_processing_info_def delta_of_def hn1_def hn1_veloc_def Let_def)

section \<open>The claims\<close>

text \<open>
  C1. For every input stream (empty or not) whose references are in the store, a
  result that \<open>get_integral\<close> returns has exactly one trace per input trace, the
  output traces are distinct new objects, and they come in the order of the input: the
  \<open>i\<close>-th output trace holds what the \<open>i\<close>-th input trace held after its pass through
  the loop body. The pass works on the input object itself, so a trace object the
  stream holds more than once is integrated once more at each later place; in a stream
  of distinct traces every output trace is its input trace integrated once.
\<close>

theorem get_integral_one_trace_per_input:
  assumes "valid h s" and "get_integral h s = Inr (h', out)"
  shows "length out = length s \<and> distinct out
       \<and> (\<forall>i<length s. snapshot_of h' (out ! i)
            = (processed ^^ Suc (count_list (take i s) (s ! i))) (snapshot_of h (s ! i)))
       \<and> (distinct s \<longrightarrow>
            (\<forall>i<length s. snapshot_of h' (out ! i) = processed (snapshot_of h (s ! i))))"
proof -
  note c = get_integral_char [OF assms]
  have len: "length out = length s" and dis: "distinct out"
    using c(1) by simp_all
  have gen: "\<forall>i<length s. snapshot_of h' (out ! i)
      = (processed ^^ Suc (count_list (take i s) (s ! i))) (snapshot_of h (s ! i))"
    using c(6) by blast
  have "\<forall>i<length s. snapshot_of h' (out ! i) = processed (snapshot_of h (s ! i))"
    if "distinct s"
    using gen count_take_distinct [OF that] by simp
  with len dis gen show ?thesis by blast
qed

text \<open>C1, on the example store with its traces visited in the order second, first.\<close>

theorem get_integral_one_trace_per_input_witness:
  "valid station [1, 0]
   \<and> get_integral station [1, 0] = Inr (station_veloc, [2, 3])
   \<and> length [2::nat, 3] = length [1::nat, 0]
   \<and> snapshot_of station_veloc ([2, 3] ! 0) = processed (snapshot_of station ([1, 0] ! 0))
   \<and> snapshot_of station_veloc ([2, 3] ! 1) = processed (snapshot_of station ([1, 0] ! 1))"
proof -
  note t = get_integral_one_trace_per_input [OF valid_station get_integral_station]
  have d: "distinct [1::nat, 0]" by simp
  from t d have a: "\<forall>i<length [1::nat, 0].
      snapshot_of station_veloc ([2, 3] ! i) = processed (snapshot_of station ([1, 0] ! i))"
    by blast
  have "snapshot_of station_veloc ([2, 3] ! 0) = processed (snapshot_of station ([1, 0] ! 0))"
    using a [rule_format, of 0] by simp
  moreover
  have "snapshot_of station_veloc ([2, 3] ! 1) = processed (snapshot_of station ([1, 0] ! 1))"
    using a [rule_format, of 1] by simp
  ultimately show ?thesis
    using valid_station get_integral_station by simp
qed

text \<open>
  C2. Whatever the units of the input traces, every trace of a result that
  \<open>get_integral\<close> returns has its \<^verbatim>\<open>'units'\<close> field set to \<^verbatim>\<open>'veloc'\<close>, the velocity tag.
\<close>

theorem get_integral_units_veloc:
  assumes "valid h s" and "get_integral h s = Inr (h', out)"
  shows "\<forall>i<length out.
           map_of (stats (traces h' ! (out ! i))) ''units'' = Some (HStr ''veloc'')"
proof (intro allI impI)
  fix i assume "i < length out"
  then have i: "i < length s" using get_integral_char(1) [OF assms] by simp
  have "map_of (header (snapshot_of h' (out ! i))) ''units'' = Some (HStr ''veloc'')"
    using get_integral_char(6) [OF assms i] by (simp add: units_processed)
  then show "map_of (stats (traces h' ! (out ! i))) ''units'' = Some (HStr ''veloc'')"
    by (simp add: snapshot_simps)
qed

text \<open>C2, on the example store: both input traces are tagged \<^verbatim>\<open>'acc'\<close>.\<close>

theorem get_integral_units_veloc_witness:
  "valid station [1, 0]
   \<and> get_integral station [1, 0] = Inr (station_veloc, [2, 3])
   \<and> map_of (stats (traces station ! 0)) ''units'' = Some (HStr ''acc'')
   \<and> map_of (stats (traces station_veloc ! ([2, 3] ! 1))) ''units'' = Some (HStr ''veloc'')"
proof -
  note t = get_integral_units_veloc [OF valid_station get_integral_station]
  have "map_of (stats (traces station_veloc ! ([2, 3] ! 1))) ''units'' = Some (HStr ''veloc'')"
    using t [rule_format, of 1] by simp
  moreover have "map_of (stats (traces station ! 0)) ''units'' = Some (HStr ''acc'')"
    by (simp add: station_def hn1_def)
  ultimately show ?thesis
    using valid_station get_integral_station by simp
qed

text \<open>
  C3. The scenario of section 8: for the stream of one trace with samples
  \<open>[0, 1, 2, 1, 0]\<close>, sampling interval 1.0 and units acceleration, Integrate returns
  one trace of the same length, tagged \<^verbatim>\<open>'veloc'\<close>, whose samples are the cumulative
  trapezoidal integral \<open>[0, 0.5, 2.0, 3.5, 4.0]\<close>. (Every number here is a dyadic
  fraction that binary floating point holds exactly.) The store returned has the new
  array as its second array, and both the input trace and the output trace,
  reference 1, refer to it.
\<close>

theorem Integrate_scenario:
  "Integrate_init
     \<lparr>traces = [\<lparr>data = 0, stats = [(''delta'', HNum 1), (''units'', HStr ''acc'')]\<rparr>],
      arrays = [[Fin 0, Fin 1, Fin 2, Fin 1, Fin 0]]\<rparr> [0] None None None
   = Inr (\<lparr>traces = [\<lparr>data = 1, stats = [(''delta'', HNum 1), (''units'', HStr ''veloc''),
                                            (''processing'', HList [processing_info])]\<rparr>,
                      \<lparr>data = 1, stats = [(''delta'', HNum 1), (''units'', HStr ''veloc''),
                                            (''processing'', HList [processing_info])]\<rparr>],
           arrays = [[Fin 0, Fin 1, Fin 2, Fin 1, Fin 0],
                     [Fin 0, Fin (1/2), Fin 2, Fin (7/2), Fin 4]]\<rparr>,
          \<lparr>transform_data = [0], damping = None, period = None, times = None,
           result = [1]\<rparr>)"
  by (simp add: Integrate_init_def Transform_init_def Transform.extend_def
      get_integral_def loop_body_def Trace_integrate_def set_units_def
      StationTrace_def snapshot_of_def integrated_def add_processing_info_def
      delta_of_def Let_def)

text \<open>
  C4, amended. For every input trace that has at least one sample, a trace of exactly
  one sample included, the output trace of a result that \<open>get_integral\<close> returns has as
  many samples as the input trace, and its sample at index 0 is 0.
\<close>

theorem get_integral_samples_length:
  assumes "valid h s" and "get_integral h s = Inr (h', out)"
  shows "\<forall>i<length s. samples (snapshot_of h (s ! i)) \<noteq> [] \<longrightarrow>
           length (samples (snapshot_of h' (out ! i))) = length (samples (snapshot_of h (s ! i)))
           \<and> samples (snapshot_of h' (out ! i)) ! 0 = Fin 0"
proof (intro allI impI)
  fix i assume i: "i < length s" and ne: "samples (snapshot_of h (s ! i)) \<noteq> []"
  let ?v = "(processed ^^ count_list (take i s) (s ! i)) (snapshot_of h (s ! i))"
  have eq: "snapshot_of h' (out ! i) = processed ?v"
    using get_integral_char(6) [OF assms i] by simp
  have len: "length (samples ?v) = length (samples (snapshot_of h (s ! i)))"
    by (rule length_processed_pow)
  with ne have "samples ?v \<noteq> []" by auto
  then have "samples (snapshot_of h' (out ! i)) ! 0 = Fin 0"
    by (simp add: eq samples_processed cumtrapz_0)
  moreover
  have "length (samples (snapshot_of h' (out ! i))) = length (samples (snapshot_of h (s ! i)))"
    using len by (simp add: eq samples_processed length_cumtrapz)
  ultimately
  show "length (samples (snapshot_of h' (out ! i))) = length (samples (snapshot_of h (s ! i)))
      \<and> samples (snapshot_of h' (out ! i)) ! 0 = Fin 0"
    by simp
qed

text \<open>
  C4 amended, on the example store: the trace of three samples, at sampling interval
  0.5, gives the three samples \<open>[0, 1, 2.5]\<close>.
\<close>

theorem get_integral_samples_length_witness:
  "valid station [1, 0]
   \<and> get_integral station [1, 0] = Inr (station_veloc, [2, 3])
   \<and> samples (snapshot_of station ([1, 0] ! 0)) = [Fin 2, Fin 2, Fin 4]
   \<and> samples (snapshot_of station_veloc ([2, 3] ! 0)) = [Fin 0, Fin 1, Fin (5/2)]
   \<and> length (samples (snapshot_of station_veloc ([2, 3] ! 0)))
       = length (samples (snapshot_of station ([1, 0] ! 0)))
   \<and> samples (snapshot_of station_veloc ([2, 3] ! 0)) ! 0 = Fin 0"
proof -
  note t = get_integral_samples_length [OF valid_station get_integral_station]
  have i: "samples (snapshot_of station ([1, 0] ! 0)) = [Fin 2, Fin 2, Fin 4]"
    by (simp add: snapshot_of_def station_def hn2_def)
  have o: "samples (snapshot_of station_veloc ([2, 3] ! 0)) = [Fin 0, Fin 1, Fin (5/2)]"
    by (simp add: snapshot_station_veloc hn2_veloc_def)
  have "length (samples (snapshot_of station_veloc ([2, 3] ! 0)))
       = length (samples (snapshot_of station ([1, 0] ! 0)))
     \<and> samples (snapshot_of station_veloc ([2, 3] ! 0)) ! 0 = Fin 0"
    using t [rule_format, of 0] i by simp
  with i o show ?thesis
    using valid_station get_integral_station by simp
qed

text \<open>
  C4 as stated fails on the trace of no sample it names: \<^verbatim>\<open>trace.integrate()\<close> returns
  \<^verbatim>\<open>None\<close> for it, line 34 ends in an AttributeError, and Integrate returns no output
  trace, of any length.
\<close>

theorem Integrate_no_sample_no_result:
  "Integrate_init
     \<lparr>traces = [\<lparr>data = 0, stats = [(''delta'', HNum 1), (''units'', HStr ''acc'')]\<rparr>],
      arrays = [[]]\<rparr> [0] None None None
   = Inl AttributeError"
  by (simp add: Integrate_init_def Transform_init_def get_integral_def loop_body_def
      Trace_integrate_def snapshot_of_def Let_def)

text \<open>
  C5, amended. Integrate does not leave its input traces as they were, and its result
  is not separate from them: the loop body integrates each trace object of the input
  stream in place, and the output trace it builds refers to the very sample array the
  input trace now refers to. What is left unchanged is every trace the input stream
  does not hold, the contents of every sample array there was before the call, every
  header field other than \<^verbatim>\<open>'units'\<close> and \<^verbatim>\<open>'processing'\<close> of every trace, and the number
  of samples of every trace. In a stream of distinct traces each input trace ends up
  holding the cumulative integral of its samples, the units \<^verbatim>\<open>'veloc'\<close> and one more
  processing entry, and shares its sample array with its output trace.
\<close>

theorem get_integral_frame:
  assumes "valid h s" and "get_integral h s = Inr (h', out)"
  shows "(\<forall>x<length (traces h). x \<notin> set s \<longrightarrow> traces h' ! x = traces h ! x)
       \<and> (\<forall>r<length (arrays h). arrays h' ! r = arrays h ! r)
       \<and> (\<forall>a<length (traces h). \<forall>k. k \<noteq> ''units'' \<longrightarrow> k \<noteq> ''processing'' \<longrightarrow>
             map_of (stats (traces h' ! a)) k = map_of (stats (traces h ! a)) k)
       \<and> (\<forall>a<length (traces h).
             length (samples (snapshot_of h' a)) = length (samples (snapshot_of h a)))
       \<and> (distinct s \<longrightarrow>
            (\<forall>i<length s. snapshot_of h' (s ! i) = processed (snapshot_of h (s ! i))
                         \<and> data (traces h' ! (out ! i)) = data (traces h' ! (s ! i))))"
proof -
  note c = get_integral_char [OF assms]
  have oth: "\<forall>x<length (traces h). x \<notin> set s \<longrightarrow> traces h' ! x = traces h ! x"
    using c(4) by blast
  have arr: "\<forall>r<length (arrays h). arrays h' ! r = arrays h ! r"
    using c(3) by blast
  have hdr: "\<forall>a<length (traces h). \<forall>k. k \<noteq> ''units'' \<longrightarrow> k \<noteq> ''processing'' \<longrightarrow>
      map_of (stats (traces h' ! a)) k = map_of (stats (traces h ! a)) k"
  proof (intro allI impI)
    fix a k assume "a < length (traces h)" and "k \<noteq> ''units''" and "k \<noteq> ''processing''"
    then have "map_of (header (snapshot_of h' a)) k = map_of (header (snapshot_of h a)) k"
      using c(5) by (simp add: other_processed_pow)
    then show "map_of (stats (traces h' ! a)) k = map_of (stats (traces h ! a)) k"
      by (simp add: snapshot_simps)
  qed
  have len: "\<forall>a<length (traces h).
      length (samples (snapshot_of h' a)) = length (samples (snapshot_of h a))"
    using c(5) by (simp add: length_processed_pow)
  have "\<forall>i<length s. snapshot_of h' (s ! i) = processed (snapshot_of h (s ! i))
                    \<and> data (traces h' ! (out ! i)) = data (traces h' ! (s ! i))"
    if d: "distinct s"
  proof (intro allI impI)
    fix i assume i: "i < length s"
    then have a: "s ! i < length (traces h)" using valid_nth [OF assms(1)] by simp
    have "count_list s (s ! i) = 1" using d i by (simp add: count_distinct)
    then have "snapshot_of h' (s ! i) = processed (snapshot_of h (s ! i))"
      using c(5) [OF a] by simp
    moreover have "data (traces h' ! (out ! i)) = data (traces h' ! (s ! i))"
      using c(7) [OF i notin_drop_distinct [OF d i]] .
    ultimately
    show "snapshot_of h' (s ! i) = processed (snapshot_of h (s ! i))
        \<and> data (traces h' ! (out ! i)) = data (traces h' ! (s ! i))" by simp
  qed
  with oth arr hdr len show ?thesis by blast
qed

text \<open>
  C5 amended, on the store of the first trace alone: the sample array the trace came
  with is as it was, its station is as it was, the trace now holds what one pass
  leaves, and the output trace refers to the array the input trace refers to.
\<close>

theorem get_integral_frame_witness:
  "valid single [0]
   \<and> get_integral single [0] = Inr (single_veloc, [1])
   \<and> arrays single_veloc ! 0 = arrays single ! 0
   \<and> map_of (stats (traces single_veloc ! 0)) ''station''
       = map_of (stats (traces single ! 0)) ''station''
   \<and> snapshot_of single_veloc ([0] ! 0) = processed (snapshot_of single ([0] ! 0))
   \<and> data (traces single_veloc ! ([1] ! 0)) = data (traces single_veloc ! ([0] ! 0))"
proof -
  note t = get_integral_frame [OF valid_single get_integral_single]
  have d: "distinct [0::nat]" by simp
  have "arrays single_veloc ! 0 = arrays single ! 0"
    by (simp add: single_def single_veloc_def)
  moreover have "map_of (stats (traces single_veloc ! 0)) ''station''
       = map_of (stats (traces single ! 0)) ''station''"
    by (simp add: single_def single_veloc_def hn1_def hn1_veloc_def)
  moreover from t d have "\<forall>i<length [0::nat].
      snapshot_of single_veloc ([0] ! i) = processed (snapshot_of single ([0] ! i))
      \<and> data (traces single_veloc ! ([1] ! i)) = data (traces single_veloc ! ([0] ! i))"
    by blast
  then have "snapshot_of single_veloc ([0] ! 0) = processed (snapshot_of single ([0] ! 0))
      \<and> data (traces single_veloc ! ([1] ! 0)) = data (traces single_veloc ! ([0] ! 0))"
    by simp
  ultimately show ?thesis
    using valid_single get_integral_single by simp
qed

text \<open>
  C5 as stated fails: after \<open>get_integral\<close> on the stream of the one trace \<open>hn1\<close>, the
  input trace object, at reference 0, holds the integrated samples, the units
  \<^verbatim>\<open>'veloc'\<close> and a processing entry, not what it came with; and the output trace, at
  reference 1, refers to the same sample array as the input trace.
\<close>

theorem get_integral_overwrites_input:
  "get_integral single [0] = Inr (single_veloc, [1])
   \<and> snapshot_of single 0 = hn1
   \<and> snapshot_of single_veloc 0 = hn1_veloc
   \<and> samples hn1_veloc \<noteq> samples hn1
   \<and> map_of (header hn1_veloc) ''units'' \<noteq> map_of (header hn1) ''units''
   \<and> map_of (header hn1_veloc) ''processing'' \<noteq> map_of (header hn1) ''processing''
   \<and> data (traces single_veloc ! 1) = data (traces single_veloc ! 0)"
  by (simp add: get_integral_single)
    (simp add: single_def single_veloc_def snapshot_of_def hn1_def hn1_veloc_def)

text \<open>
  C6, amended. Every header field other than \<^verbatim>\<open>'units'\<close> and \<^verbatim>\<open>'processing'\<close> (network,
  station, channel, start time and any other) of an output trace of \<open>get_integral\<close> has
  the value it has in the header of the corresponding input trace, and a field the
  input header lacks is lacking in the output header too. The field
  \<^verbatim>\<open>'processing'\<close> is not carried over as it is: the integration adds an entry to it.
\<close>

theorem get_integral_header_carried:
  assumes "valid h s" and "get_integral h s = Inr (h', out)"
  shows "\<forall>i<length s. \<forall>k. k \<noteq> ''units'' \<longrightarrow> k \<noteq> ''processing'' \<longrightarrow>
           map_of (stats (traces h' ! (out ! i))) k = map_of (stats (traces h ! (s ! i))) k"
proof (intro allI impI)
  fix i k assume i: "i < length s" and k: "k \<noteq> ''units''" "k \<noteq> ''processing''"
  have "map_of (header (snapshot_of h' (out ! i))) k
      = map_of (header (snapshot_of h (s ! i))) k"
    using get_integral_char(6) [OF assms i] k
    by (simp add: other_processed other_processed_pow)
  then show "map_of (stats (traces h' ! (out ! i))) k = map_of (stats (traces h ! (s ! i))) k"
    by (simp add: snapshot_simps)
qed

text \<open>
  C6 amended, on the example store: the channel of the first output trace is that of
  the second input trace, which was visited first.
\<close>

theorem get_integral_header_carried_witness:
  "valid station [1, 0]
   \<and> get_integral station [1, 0] = Inr (station_veloc, [2, 3])
   \<and> map_of (stats (traces station_veloc ! ([2, 3] ! 0))) ''channel''
       = map_of (stats (traces station ! ([1, 0] ! 0))) ''channel''
   \<and> map_of (stats (traces station ! ([1, 0] ! 0))) ''channel'' = Some (HStr ''HN2'')"
proof -
  note t = get_integral_header_carried [OF valid_station get_integral_station]
  have "map_of (stats (traces station_veloc ! ([2, 3] ! 0))) ''channel''
       = map_of (stats (traces station ! ([1, 0] ! 0))) ''channel''"
    using t [rule_format, of 0 "''channel''"] by simp
  moreover
  have "map_of (stats (traces station ! ([1, 0] ! 0))) ''channel'' = Some (HStr ''HN2'')"
    by (simp add: station_def hn2_def)
  ultimately show ?thesis
    using valid_station get_integral_station by simp
qed

text \<open>
  C6 as stated fails: the header of the output trace has a field \<^verbatim>\<open>'processing'\<close>, with
  the record of the integration, that the header of the input trace did not have.
\<close>

theorem get_integral_adds_processing:
  "get_integral station [1, 0] = Inr (station_veloc, [2, 3])
   \<and> map_of (stats (traces station ! ([1, 0] ! 0))) ''processing'' = None
   \<and> map_of (stats (traces station_veloc ! ([2, 3] ! 0))) ''processing''
       = Some (HList [processing_info])"
proof -
  have "map_of (stats (traces station ! ([1, 0] ! 0))) ''processing'' = None"
    by (simp add: station_def hn2_def)
  moreover have "map_of (stats (traces station_veloc ! ([2, 3] ! 0))) ''processing''
       = Some (HList [processing_info])"
    by (simp add: station_veloc_def hn2_veloc_def)
  ultimately show ?thesis using get_integral_station by simp
qed

text \<open>
  C7, amended. Integrate does not check its samples. On an input stream holding a
  trace of at least two samples, one of them not finite (NaN or an infinity), it does
  not fail with InvalidData, and a result it returns has a sample that is not finite
  in the corresponding output trace: the value passes into the output.
\<close>

theorem Integrate_nonfinite_passes:
  assumes "valid h s" and "i < length s"
    and "2 \<le> length (samples (snapshot_of h (s ! i)))"
    and "\<not> list_all is_finite (samples (snapshot_of h (s ! i)))"
  shows "Integrate_init h s d p t \<noteq> Inl InvalidData
       \<and> (\<forall>h' self. Integrate_init h s d p t = Inr (h', self) \<longrightarrow>
            \<not> list_all is_finite (samples (snapshot_of h' (result self ! i))))"
proof
  show "Integrate_init h s d p t \<noteq> Inl InvalidData"
    using Integrate_init_Inl [of h s d p t InvalidData] by auto
  show "\<forall>h' self. Integrate_init h s d p t = Inr (h', self) \<longrightarrow>
      \<not> list_all is_finite (samples (snapshot_of h' (result self ! i)))"
  proof (intro allI impI)
    fix h' self assume "Integrate_init h s d p t = Inr (h', self)"
    then have g: "get_integral h s = Inr (h', result self)" by (rule Integrate_init_Inr)
    have "snapshot_of h' (result self ! i)
        = (processed ^^ Suc (count_list (take i s) (s ! i))) (snapshot_of h (s ! i))"
      using get_integral_char(6) [OF assms(1) g assms(2)] .
    then show "\<not> list_all is_finite (samples (snapshot_of h' (result self ! i)))"
      using nonfinite_processed_pow [OF assms(3,4)] by (simp del: funpow.simps)
  qed
qed

text \<open>C7 amended, on a trace whose second sample is NaN.\<close>

theorem Integrate_nonfinite_passes_witness:
  "valid \<lparr>traces = [\<lparr>data = 0, stats = [(''units'', HStr ''acc'')]\<rparr>],
          arrays = [[Fin 1, NaN]]\<rparr> [0]
   \<and> samples (snapshot_of \<lparr>traces = [\<lparr>data = 0, stats = [(''units'', HStr ''acc'')]\<rparr>],
                            arrays = [[Fin 1, NaN]]\<rparr> ([0] ! 0)) = [Fin 1, NaN]
   \<and> Integrate_init \<lparr>traces = [\<lparr>data = 0, stats = [(''units'', HStr ''acc'')]\<rparr>],
                     arrays = [[Fin 1, NaN]]\<rparr> [0] None None None \<noteq> Inl InvalidData
   \<and> \<not> list_all is_finite
         (samples (snapshot_of
            \<lparr>traces = [\<lparr>data = 1, stats = [(''units'', HStr ''veloc''),
                                           (''processing'', HList [processing_info])]\<rparr>,
                       \<lparr>data = 1, stats = [(''units'', HStr ''veloc''),
                                           (''processing'', HList [processing_info])]\<rparr>],
             arrays = [[Fin 1, NaN], [Fin 0, NaN]]\<rparr> 1))"
proof -
  let ?h = "\<lparr>traces = [\<lparr>data = 0, stats = [(''units'', HStr ''acc'')]\<rparr>],
             arrays = [[Fin 1, NaN]]\<rparr>"
  let ?h' = "\<lparr>traces = [\<lparr>data = 1, stats = [(''units'', HStr ''veloc''),
                                           (''processing'', HList [processing_info])]\<rparr>,
                       \<lparr>data = 1, stats = [(''units'', HStr ''veloc''),
                                           (''processing'', HList [processing_info])]\<rparr>],
              arrays = [[Fin 1, NaN], [Fin 0, NaN]]\<rparr>"
  let ?self = "\<lparr>transform_data = [0], damping = None, period = None, times = None,
                result = [1]\<rparr>"
  have v: "valid ?h [0]" by (simp add: valid_def)
  have i: "0 < length [0::nat]" by simp
  have x: "samples (snapshot_of ?h ([0] ! 0)) = [Fin 1, NaN]"
    by (simp add: snapshot_of_def)
  have l: "2 \<le> length (samples (snapshot_of ?h ([0] ! 0)))"
    by (simp add: snapshot_of_def)
  have n: "\<not> list_all is_finite (samples (snapshot_of ?h ([0] ! 0)))"
    by (simp add: snapshot_of_def)
  have r: "Integrate_init ?h [0] None None None = Inr (?h', ?self)"
    by (simp add: Integrate_init_def Transform_init_def Transform.extend_def
        get_integral_def loop_body_def Trace_integrate_def set_units_def
        StationTrace_def snapshot_of_def integrated_def add_processing_info_def
        delta_of_def Let_def)
  note t = Integrate_nonfinite_passes [OF v i l n, of None None None]
  from t have a: "Integrate_init ?h [0] None None None \<noteq> Inl InvalidData" by blast
  from t r have "\<not> list_all is_finite (samples (snapshot_of ?h' (result ?self ! 0)))"
    by blast
  then have b: "\<not> list_all is_finite (samples (snapshot_of ?h' 1))" by simp
  from v x a b show ?thesis by blast
qed

text \<open>
  C7 as stated fails: on a trace whose second sample is NaN, Integrate returns a
  result, and the NaN is in the samples of the output trace.
\<close>

theorem Integrate_nan_no_error:
  "\<not> is_finite NaN
   \<and> Integrate_init
       \<lparr>traces = [\<lparr>data = 0, stats = [(''units'', HStr ''acc'')]\<rparr>],
        arrays = [[Fin 1, NaN]]\<rparr> [0] None None None
     = Inr (\<lparr>traces = [\<lparr>data = 1, stats = [(''units'', HStr ''veloc''),
                                              (''processing'', HList [processing_info])]\<rparr>,
                        \<lparr>data = 1, stats = [(''units'', HStr ''veloc''),
                                              (''processing'', HList [processing_info])]\<rparr>],
             arrays = [[Fin 1, NaN], [Fin 0, NaN]]\<rparr>,
            \<lparr>transform_data = [0], damping = None, period = None, times = None,
             result = [1]\<rparr>)
   \<and> Integrate_init
       \<lparr>traces = [\<lparr>data = 0, stats = [(''units'', HStr ''acc'')]\<rparr>],
        arrays = [[Fin 1, NaN]]\<rparr> [0] None None None
     \<noteq> Inl InvalidData"
  by (simp add: Integrate_init_def Transform_init_def Transform.extend_def
      get_integral_def loop_body_def Trace_integrate_def set_units_def
      StationTrace_def snapshot_of_def integrated_def add_processing_info_def
      delta_of_def Let_def)

text \<open>
  C8, amended. Invoking Integrate with an empty input stream raises no error,
  EmptyInput or other: the loop body never runs and the result stream that is
  produced is empty.
\<close>

theorem Integrate_empty_no_error:
  "(\<forall>e. Integrate_init h [] d p t \<noteq> Inl e)
   \<and> (\<exists>h' self. Integrate_init h [] d p t = Inr (h', self) \<and> result self = [])"
  by (simp add: Integrate_init_def Transform_init_def Transform.extend_def get_integral_def)

text \<open>
  C8 as stated fails: on the empty stream, with nothing in the store, Integrate
  returns a result and not the error EmptyInput.
\<close>

theorem Integrate_empty_not_EmptyInput:
  "Integrate_init \<lparr>traces = [], arrays = []\<rparr> [] None None None \<noteq> Inl EmptyInput
   \<and> Integrate_init \<lparr>traces = [], arrays = []\<rparr> [] None None None
     = Inr (\<lparr>traces = [], arrays = []\<rparr>,
            \<lparr>transform_data = [], damping = None, period = None, times = None,
             result = []\<rparr>)"
  by (simp add: Integrate_init_def Transform_init_def Transform.extend_def get_integral_def)

text \<open>
  C9. The outcome of Integrate does not depend on \<open>damping\<close>, \<open>period\<close> and \<open>times\<close>:
  for every store and input stream, any two choices of the three parameters give the
  same outcome, and so, when a result is returned, the same store, the same Integrate
  object and the same result stream.
\<close>

theorem Integrate_ignores_parameters:
  "Integrate_init h s d1 p1 t1 = Integrate_init h s d2 p2 t2"
  by (simp add: Integrate_init_def)

text \<open>
  C10. On an input of zero traces Integrate raises no error, leaves the store as it
  is, and its result is an empty stream.
\<close>

theorem Integrate_empty_stream:
  "Integrate_init h [] d p t
     = Inr (h, \<lparr>transform_data = [], damping = None, period = None, times = None,
                result = []\<rparr>)"
  by (simp add: Integrate_init_def Transform_init_def Transform.extend_def get_integral_def)

end
